theory Spec2Isabelle
  imports Main
begin

section \<open>Configuration constants\<close>

text \<open>
  The module-level constants of \<^verbatim>\<open>generate_x24_qr_with-title.py\<close> (lines 9 to 23).
  Python integers are unbounded; counts and lengths are naturals, pixel quantities are
  integers because they take part in subtractions.
\<close>

definition NUM_CODES :: nat where
  "NUM_CODES = 24"

definition STRING_LENGTH :: nat where
  "STRING_LENGTH = 5"

definition OUTPUT_DIR :: string where
  "OUTPUT_DIR = ''qr_codes_with_titles''"

definition IMAGE_FORMAT :: string where
  "IMAGE_FORMAT = ''PNG''"

definition QR_BOX_SIZE :: int where
  "QR_BOX_SIZE = 10"

definition QR_BORDER :: int where
  "QR_BORDER = 4"

definition PADDING :: int where
  "PADDING = 20"

definition TEXT_PADDING_TOP :: int where
  "TEXT_PADDING_TOP = 10"

definition FONT_SIZE :: int where
  "FONT_SIZE = 25"

definition BACKGROUND_COLOR :: string where
  "BACKGROUND_COLOR = ''white''"

definition TEXT_COLOR :: string where
  "TEXT_COLOR = ''black''"

section \<open>Data model\<close>

text \<open>
  Exceptions are values. Every constructor stands for a subclass of Python's
  \<^verbatim>\<open>Exception\<close>; \<^verbatim>\<open>IOError\<close> is Python 3's alias of \<^verbatim>\<open>OSError\<close> and stands for its
  subclasses too (a missing file, a denied permission, an existing file).
\<close>

datatype exn = IOError | AttributeError | ValueError | OtherException

datatype font = FreeTypeFont string int | DefaultBitmapFont

text \<open>
  What has been drawn on a canvas: the pasted QR image with its origin and size, and the
  text with its origin.
\<close>

datatype element = QR_at int int int int | Text_at int int string

record image =
  img_width :: int
  img_height :: int
  background :: string
  elements :: "element list"

datatype node = Dir | File image

text \<open>
  Lines written to standard output and to the logging module, kept as structured events
  in the order they are written (the source line of each is given).
\<close>

datatype event =
    Print_font_warning
  | Log_font_error exn
  | Print_no_font
  | Print_generating nat string
  | Print_older_textsize
  | Print_created string
  | Log_failed string exn
  | Print_error string exn
  | Print_stall_warning
  | Print_finished nat

record world =
  files :: "string \<rightharpoonup> node"
  stdout :: "event list"

text \<open>
  The collaborators the script calls but does not implement: Pillow's font loaders and
  text measurement, the \<^verbatim>\<open>qrcode\<close> encoder together with its renderer (only the size of
  the rendered image is read by the script), and the operating system's answer to
  creating a directory and writing a file. Each either returns or raises.
\<close>

record env =
  truetype :: "string \<Rightarrow> int \<Rightarrow> exn + font"
  load_default :: "exn + font"
  qr_make_image :: "int \<Rightarrow> int \<Rightarrow> string \<Rightarrow> exn + (int \<times> int)"
  textbbox :: "font \<Rightarrow> string \<Rightarrow> exn + (int \<times> int \<times> int \<times> int)"
  textsize :: "font \<Rightarrow> string \<Rightarrow> exn + (int \<times> int)"
  save_error :: "string \<Rightarrow> exn option"
  mkdir_error :: "string \<Rightarrow> exn option"

definition print :: "event \<Rightarrow> world \<Rightarrow> world" where
  "print e w = w\<lparr>stdout := stdout w @ [e]\<rparr>"

section \<open>Font selection (lines 26 to 39)\<close>

text \<open>
  The outcome of the module-level \<^verbatim>\<open>try\<close>: the global \<^verbatim>\<open>FONT\<close> is bound, or \<^verbatim>\<open>exit()\<close>
  was called, or an exception that no handler matches leaves the module.
  \<^verbatim>\<open>except IOError\<close> matches \<^verbatim>\<open>IOError\<close> only; the inner \<^verbatim>\<open>except Exception\<close> matches
  everything.
\<close>

datatype startup = Loaded font | Exited | Uncaught exn

definition load_font :: "env \<Rightarrow> world \<Rightarrow> startup \<times> world" where
  "load_font env w =
     (case truetype env ''arial.ttf'' FONT_SIZE of
        Inr f \<Rightarrow> (Loaded f, w)
      | Inl e \<Rightarrow>
          if e = IOError then
            (let w1 = print Print_font_warning w in
             case load_default env of
               Inr f \<Rightarrow> (Loaded f, w1)
             | Inl e' \<Rightarrow> (Exited, print Print_no_font (print (Log_font_error e') w1)))
          else (Uncaught e, w))"

section \<open>Helper functions\<close>

definition characters :: string where
  "characters = ''ABCDEFGHIJKLMNOPQRSTUVWXYZ0123456789''"

text \<open>
  \<^verbatim>\<open>random.choice(seq)\<close> is \<^verbatim>\<open>seq[randbelow(len(seq))]\<close>. The generator's stream of raw
  draws is a function \<open>rnd\<close> from positions to naturals; a draw is reduced modulo the
  length of the sequence, so every index can be chosen and none outside.
\<close>

definition choice :: "'a list \<Rightarrow> nat \<Rightarrow> 'a" where
  "choice seq r = seq ! (r mod length seq)"

text \<open>
  \<^verbatim>\<open>generate_random_string(length)\<close> (lines 42 to 45): \<open>length\<close> draws, starting at
  position \<open>p\<close> of the stream; returns the string and the next position.
\<close>

definition generate_random_string :: "nat \<Rightarrow> (nat \<Rightarrow> nat) \<Rightarrow> nat \<Rightarrow> string \<times> nat" where
  "generate_random_string len rnd p =
     (map (\<lambda>k. choice characters (rnd (p + k))) [0..<len], p + len)"

text \<open>
  Lines 67 to 73: \<^verbatim>\<open>textbbox\<close>, and on \<^verbatim>\<open>AttributeError\<close> the older \<^verbatim>\<open>textsize\<close> after a
  printed note. Any other exception leaves the inner \<^verbatim>\<open>try\<close>.
\<close>

definition measure_text ::
  "env \<Rightarrow> font \<Rightarrow> string \<Rightarrow> world \<Rightarrow> (exn + (int \<times> int)) \<times> world" where
  "measure_text env FONT data_string w =
     (case textbbox env FONT data_string of
        Inr (x0, y0, x1, y1) \<Rightarrow> (Inr (x1 - x0, y1 - y0), w)
      | Inl e \<Rightarrow>
          if e = AttributeError
          then (textsize env FONT data_string, print Print_older_textsize w)
          else (Inl e, w))"

text \<open>
  Pillow's \<^verbatim>\<open>Image.new\<close> refuses a negative width or height with \<^verbatim>\<open>ValueError\<close>.
\<close>

definition Image_new :: "int \<times> int \<Rightarrow> string \<Rightarrow> exn + image" where
  "Image_new sz color =
     (if fst sz < 0 \<or> snd sz < 0 then Inl ValueError
      else Inr \<lparr>img_width = fst sz, img_height = snd sz,
                background = color, elements = []\<rparr>)"

definition paste :: "image \<Rightarrow> int \<times> int \<Rightarrow> int \<times> int \<Rightarrow> image" where
  "paste img qr_size box =
     img\<lparr>elements := elements img @ [QR_at (fst box) (snd box) (fst qr_size) (snd qr_size)]\<rparr>"

definition draw_text :: "image \<Rightarrow> int \<times> int \<Rightarrow> string \<Rightarrow> image" where
  "draw_text img xy s = img\<lparr>elements := elements img @ [Text_at (fst xy) (snd xy) s]\<rparr>"


definition save :: "env \<Rightarrow> image \<Rightarrow> string \<Rightarrow> world \<Rightarrow> exn + world" where
  "save env img filename w =
     (case save_error env filename of
        Some e \<Rightarrow> Inl e
      | None \<Rightarrow> Inr (w\<lparr>files := (files w)(filename \<mapsto> File img)\<rparr>))"

text \<open>
  The body of the \<^verbatim>\<open>try\<close> of \<^verbatim>\<open>create_qr_with_title\<close> (lines 50 to 96): the first
  exception ends it, and what was printed before stays printed.
\<close>

definition try_body ::
  "env \<Rightarrow> font \<Rightarrow> string \<Rightarrow> string \<Rightarrow> world \<Rightarrow> (exn + unit) \<times> world" where
  "try_body env FONT data_string filename w =
     (case qr_make_image env QR_BOX_SIZE QR_BORDER data_string of
        Inl e \<Rightarrow> (Inl e, w)
      | Inr (qr_width, qr_height) \<Rightarrow>
          (case measure_text env FONT data_string w of
             (Inl e, w1) \<Rightarrow> (Inl e, w1)
           | (Inr (text_width, text_height), w1) \<Rightarrow>
               (let total_width = max qr_width text_width + 2 * PADDING;
                    total_height = qr_height + TEXT_PADDING_TOP + text_height + 2 * PADDING
                in case Image_new (total_width, total_height) BACKGROUND_COLOR of
                     Inl e \<Rightarrow> (Inl e, w1)
                   | Inr final_img \<Rightarrow>
                       (let qr_x = (total_width - qr_width) div 2;
                            qr_y = PADDING;
                            img1 = paste final_img (qr_width, qr_height) (qr_x, qr_y);
                            text_x = (total_width - text_width) div 2;
                            text_y = qr_y + qr_height + TEXT_PADDING_TOP;
                            img2 = draw_text img1 (text_x, text_y) data_string
                        in case save env img2 filename w1 of
                             Inl e \<Rightarrow> (Inl e, w1)
                           | Inr w2 \<Rightarrow> (Inr (), print (Print_created filename) w2)))))"

text \<open>
  \<^verbatim>\<open>create_qr_with_title\<close> (lines 47 to 100): the handler of \<^verbatim>\<open>except Exception\<close> logs
  and prints the failure with the data string, and the function returns normally.
\<close>

definition create_qr_with_title :: "env \<Rightarrow> font \<Rightarrow> string \<Rightarrow> string \<Rightarrow> world \<Rightarrow> world" where
  "create_qr_with_title env FONT data_string filename w =
     (case try_body env FONT data_string filename w of
        (Inr u, w') \<Rightarrow> w'
      | (Inl e, w') \<Rightarrow> print (Print_error data_string e) (print (Log_failed data_string e) w'))"

section \<open>File names\<close>

text \<open>
  \<^verbatim>\<open>str.isalnum\<close> and \<^verbatim>\<open>str.lower\<close> on one character. A \<^typ>\<open>char\<close> is read as the code
  point of the same number (0 to 255): beside the ASCII letters and digits, Python counts
  the Latin-1 letters, superscript digits and vulgar fractions as alphanumeric.
\<close>

definition isalnum :: "char \<Rightarrow> bool" where
  "isalnum c =
     (let n = (of_char c :: nat) in
        (48 \<le> n \<and> n \<le> 57) \<or> (65 \<le> n \<and> n \<le> 90) \<or> (97 \<le> n \<and> n \<le> 122)
        \<or> n \<in> {170, 178, 179, 181, 185, 186, 188, 189, 190}
        \<or> (192 \<le> n \<and> n \<le> 214) \<or> (216 \<le> n \<and> n \<le> 246) \<or> (248 \<le> n \<and> n \<le> 255))"

definition lower_char :: "char \<Rightarrow> char" where
  "lower_char c =
     (let n = (of_char c :: nat) in
        if (65 \<le> n \<and> n \<le> 90) \<or> (192 \<le> n \<and> n \<le> 214) \<or> (216 \<le> n \<and> n \<le> 222)
        then char_of (n + 32) else c)"

definition lower :: "string \<Rightarrow> string" where
  "lower s = map lower_char s"

text \<open>Line 116: the generator expression joined into \<^verbatim>\<open>safe_filename\<close>.\<close>

definition safe_filename :: "string \<Rightarrow> string" where
  "safe_filename random_str = map (\<lambda>c. if isalnum c then c else CHR ''_'') random_str"

text \<open>\<^verbatim>\<open>os.path.join\<close> of two components, as \<^verbatim>\<open>posixpath\<close> defines it.\<close>

definition os_path_join :: "string \<Rightarrow> string \<Rightarrow> string" where
  "os_path_join a b =
     (if b \<noteq> [] \<and> hd b = CHR ''/'' then b
      else if a = [] \<or> last a = CHR ''/'' then a @ b
      else a @ ''/'' @ b)"

definition output_path :: "string \<Rightarrow> string" where
  "output_path random_str =
     os_path_join OUTPUT_DIR (safe_filename random_str @ ''.'' @ lower IMAGE_FORMAT)"

section \<open>Main execution (lines 104 to 125)\<close>

text \<open>
  \<^verbatim>\<open>os.makedirs(name, exist_ok=...)\<close> for a path of one component: an existing directory
  is accepted when \<open>exist_ok\<close> holds, an existing file never is, and creating the
  directory can be refused by the operating system.
\<close>

definition makedirs :: "env \<Rightarrow> string \<Rightarrow> bool \<Rightarrow> world \<Rightarrow> exn + world" where
  "makedirs env name exist_ok w =
     (case files w name of
        Some Dir \<Rightarrow> if exist_ok then Inr w else Inl IOError
      | Some (File img) \<Rightarrow> Inl IOError
      | None \<Rightarrow>
          (case mkdir_error env name of
             Some e \<Rightarrow> Inl e
           | None \<Rightarrow> Inr (w\<lparr>files := (files w)(name \<mapsto> Dir)\<rparr>)))"

record loop_state =
  generated_strings :: "string set"
  rng_pos :: nat
  wld :: world

text \<open>
  One pass through the body of the \<^verbatim>\<open>while\<close> up to the safety check (lines 112 to 118).
\<close>

definition loop_body :: "env \<Rightarrow> font \<Rightarrow> nat \<Rightarrow> (nat \<Rightarrow> nat) \<Rightarrow> loop_state \<Rightarrow> loop_state" where
  "loop_body env FONT len rnd st =
     (case generate_random_string len rnd (rng_pos st) of
        (random_str, p') \<Rightarrow>
          if random_str \<notin> generated_strings st
          then \<lparr>generated_strings = insert random_str (generated_strings st),
                rng_pos = p',
                wld = create_qr_with_title env FONT random_str (output_path random_str) (wld st)\<rparr>
          else st\<lparr>rng_pos := p'\<rparr>)"

text \<open>The condition of the safety break (line 120), on the number of strings held.\<close>

definition safety_break :: "nat \<Rightarrow> nat \<Rightarrow> bool" where
  "safety_break n num_codes = (n > num_codes * 2 \<and> n < num_codes)"

text \<open>
  The \<^verbatim>\<open>while\<close> loop (lines 111 to 122) for a requested count and a string length. The
  loop has no bound of its own, so the result is optional: \<open>None\<close> is a run that never
  leaves the loop.
\<close>

partial_function (option) gen_loop ::
  "env \<Rightarrow> font \<Rightarrow> nat \<Rightarrow> nat \<Rightarrow> (nat \<Rightarrow> nat) \<Rightarrow> loop_state \<Rightarrow> loop_state option" where
  "gen_loop env FONT num_codes len rnd st =
     (if card (generated_strings st) < num_codes then
        (let st1 = loop_body env FONT len rnd st in
         if safety_break (card (generated_strings st1)) num_codes
         then Some (st1\<lparr>wld := print Print_stall_warning (wld st1)\<rparr>)
         else gen_loop env FONT num_codes len rnd st1)
      else Some st)"

declare gen_loop.simps [code]

text \<open>
  The whole run: the exit status of the process and the world it leaves, or \<open>None\<close>
  when it never ends. \<^verbatim>\<open>exit()\<close> without an argument ends the process with status 0;
  an uncaught exception ends it with status 1; so does reaching the end of the script
  with status 0.
\<close>

definition run :: "env \<Rightarrow> nat \<Rightarrow> nat \<Rightarrow> (nat \<Rightarrow> nat) \<Rightarrow> world \<Rightarrow> (nat \<times> world) option" where
  "run env num_codes len rnd w =
     (case load_font env w of
        (Exited, w1) \<Rightarrow> Some (0, w1)
      | (Uncaught e, w1) \<Rightarrow> Some (1, w1)
      | (Loaded FONT, w1) \<Rightarrow>
          (case makedirs env OUTPUT_DIR True w1 of
             Inl e \<Rightarrow> Some (1, w1)
           | Inr w2 \<Rightarrow>
               (case gen_loop env FONT num_codes len rnd
                       \<lparr>generated_strings = {}, rng_pos = 0,
                        wld = print (Print_generating num_codes OUTPUT_DIR) w2\<rparr> of
                  None \<Rightarrow> None
                | Some st \<Rightarrow>
                    Some (0, print (Print_finished (card (generated_strings st))) (wld st)))))"

definition main :: "env \<Rightarrow> (nat \<Rightarrow> nat) \<Rightarrow> world \<Rightarrow> (nat \<times> world) option" where
  "main env rnd w = run env NUM_CODES STRING_LENGTH rnd w"

section \<open>Notions used to state the properties\<close>

text \<open>
  The string that the call number \<open>i\<close> of \<open>generate_random_string\<close> returns when the
  first call starts at position \<open>p\<close> of the stream of draws.
\<close>

definition nth_sample :: "nat \<Rightarrow> (nat \<Rightarrow> nat) \<Rightarrow> nat \<Rightarrow> nat \<Rightarrow> string" where
  "nth_sample len rnd p i = fst (generate_random_string len rnd (p + i * len))"

text \<open>The loop state after \<open>k\<close> passes through the body of the loop.\<close>

definition iter :: "env \<Rightarrow> font \<Rightarrow> nat \<Rightarrow> (nat \<Rightarrow> nat) \<Rightarrow> nat \<Rightarrow> loop_state \<Rightarrow> loop_state" where
  "iter env FONT len rnd k st = (loop_body env FONT len rnd ^^ k) st"


text \<open>Counting the lines of successful and of failed items on the output.\<close>

fun is_created :: "event \<Rightarrow> bool" where
  "is_created (Print_created f) = True"
| "is_created e = False"

fun is_failed :: "event \<Rightarrow> bool" where
  "is_failed (Log_failed d e) = True"
| "is_failed e = False"

definition created_count :: "world \<Rightarrow> nat" where
  "created_count w = length (filter is_created (stdout w))"

definition failed_count :: "world \<Rightarrow> nat" where
  "failed_count w = length (filter is_failed (stdout w))"

text \<open>
  What the run leaves for one code \<open>c\<close>, given the events \<open>evs\<close> it has written: either
  the success line for the path of \<open>c\<close> and at that path an image that shows the text
  \<open>c\<close>, or a logged failure for \<open>c\<close> and at that path whatever the world \<open>w0\<close> before the
  run had there.
\<close>

fun shows_text :: "string \<Rightarrow> element \<Rightarrow> bool" where
  "shows_text c (Text_at x y s) = (s = c)"
| "shows_text c (QR_at x y w h) = False"

fun logs_failure :: "string \<Rightarrow> event \<Rightarrow> bool" where
  "logs_failure c (Log_failed d e) = (d = c)"
| "logs_failure c ev = False"

definition item_written :: "string \<Rightarrow> event list \<Rightarrow> world \<Rightarrow> bool" where
  "item_written c evs w =
     (Print_created (output_path c) \<in> set evs \<and>
      (case files w (output_path c) of
         Some (File img) \<Rightarrow> list_ex (shows_text c) (elements img)
       | _ \<Rightarrow> False))"

definition item_skipped :: "string \<Rightarrow> event list \<Rightarrow> world \<Rightarrow> world \<Rightarrow> bool" where
  "item_skipped c evs w0 w =
     (list_ex (logs_failure c) evs \<and> files w (output_path c) = files w0 (output_path c))"


text \<open>
  Concrete inputs: an empty world; collaborators that all succeed (a version 1 symbol of
  21 modules, a font 15 pixels wide per character); a stream of draws whose strings are
  AAAAA, AAAAB, AAAAC and so on.
\<close>

definition world0 :: world where
  "world0 = \<lparr>files = Map.empty, stdout = []\<rparr>"

definition env_ok :: env where
  "env_ok = \<lparr>truetype = (\<lambda>name sz. Inr (FreeTypeFont name sz)),
            load_default = Inr DefaultBitmapFont,
            qr_make_image = (\<lambda>box border d. Inr ((21 + 2 * border) * box, (21 + 2 * border) * box)),
            textbbox = (\<lambda>f d. Inr (0, 5, 15 * int (length d), 23)),
            textsize = (\<lambda>f d. Inr (15 * int (length d), 18)),
            save_error = (\<lambda>p. None),
            mkdir_error = (\<lambda>p. None)\<rparr>"

definition rnd_counting :: "nat \<Rightarrow> nat" where
  "rnd_counting i = (if i mod 5 = 4 then i div 5 else 0)"

text \<open>
  Further concrete inputs: a font whose glyphs start 21 pixels below the text origin;
  a world where the output directory exists already; collaborators that refuse every
  write of an image, that have no font at all, that fail in the font loader with an
  error other than \<^verbatim>\<open>IOError\<close>; and a world where the name of the output directory is
  taken by a file.
\<close>

definition env_off :: env where
  "env_off = env_ok\<lparr>textbbox := (\<lambda>f d. Inr (0, 21, 15 * int (length d), 39))\<rparr>"

definition world_dir :: world where
  "world_dir = \<lparr>files = [OUTPUT_DIR \<mapsto> Dir], stdout = []\<rparr>"

definition env_unwritable :: env where
  "env_unwritable = env_ok\<lparr>save_error := (\<lambda>p. Some IOError)\<rparr>"



definition world_blocked :: world where
  "world_blocked = \<lparr>files = [OUTPUT_DIR \<mapsto> File \<lparr>img_width = 1, img_height = 1,
                                   background = ''white'', elements = []\<rparr>],
                    stdout = []\<rparr>"

section \<open>The loop as an iteration\<close>

lemma safety_break_never: "\<not> safety_break n num_codes"
  by (simp add: safety_break_def)

lemma gen_loop_unfold:
  "gen_loop env FONT num_codes len rnd st =
     (if card (generated_strings st) < num_codes
      then gen_loop env FONT num_codes len rnd (loop_body env FONT len rnd st)
      else Some st)"
  by (subst gen_loop.simps) (simp add: safety_break_never Let_def)

lemma iter_0: "iter env FONT len rnd 0 st = st"
  by (simp add: iter_def)

lemma iter_Suc_left: "iter env FONT len rnd (Suc k) st = iter env FONT len rnd k (loop_body env FONT len rnd st)"
  by (simp add: iter_def funpow_swap1)

lemma iter_Suc: "iter env FONT len rnd (Suc k) st = loop_body env FONT len rnd (iter env FONT len rnd k st)"
  by (simp add: iter_def)

lemma gen_loop_Some_iter:
  assumes "gen_loop env FONT num_codes len rnd st = Some st'"
  shows "\<exists>k. st' = iter env FONT len rnd k st
            \<and> \<not> card (generated_strings st') < num_codes
            \<and> (\<forall>i<k. card (generated_strings (iter env FONT len rnd i st)) < num_codes)"
proof -
  let ?P = "\<lambda>env FONT num_codes len rnd st st'.
      \<exists>k. st' = iter env FONT len rnd k st
            \<and> \<not> card (generated_strings st') < num_codes
            \<and> (\<forall>i<k. card (generated_strings (iter env FONT len rnd i st)) < num_codes)"
  show ?thesis
  proof (rule gen_loop.raw_induct[where P = ?P, OF _ assms])
    fix gl env FONT num_codes len rnd st st'
    assume IH: "\<And>env FONT num_codes len rnd st st'.
        gl env FONT num_codes len rnd st = Some st' \<Longrightarrow> ?P env FONT num_codes len rnd st st'"
    assume eq: "(if card (generated_strings st) < num_codes
      then let st1 = loop_body env FONT len rnd st
           in if safety_break (card (generated_strings st1)) num_codes
              then Some (st1\<lparr>wld := print Print_stall_warning (wld st1)\<rparr>)
              else gl env FONT num_codes len rnd st1
      else Some st) = Some st'"
    show "?P env FONT num_codes len rnd st st'"
    proof (cases "card (generated_strings st) < num_codes")
      case False
      with eq have "st' = st" by simp
      with False show ?thesis
        by (intro exI[of _ 0]) (simp add: iter_0)
    next
      case True
      with eq have "gl env FONT num_codes len rnd (loop_body env FONT len rnd st) = Some st'"
        by (simp add: safety_break_never Let_def)
      from IH[OF this] obtain k where
        k: "st' = iter env FONT len rnd k (loop_body env FONT len rnd st)"
           "\<not> card (generated_strings st') < num_codes"
           "\<forall>i<k. card (generated_strings
                (iter env FONT len rnd i (loop_body env FONT len rnd st))) < num_codes"
        by blast
      have "\<forall>i<Suc k. card (generated_strings (iter env FONT len rnd i st)) < num_codes"
      proof (intro allI impI)
        fix i assume "i < Suc k"
        show "card (generated_strings (iter env FONT len rnd i st)) < num_codes"
        proof (cases i)
          case 0
          with True show ?thesis by (simp add: iter_0)
        next
          case (Suc j)
          with \<open>i < Suc k\<close> k(3) show ?thesis by (simp add: iter_Suc_left)
        qed
      qed
      with k(1,2) show ?thesis
        by (intro exI[of _ "Suc k"]) (simp add: iter_Suc_left)
    qed
  qed
qed

lemma gen_loop_iter_Some:
  "\<not> card (generated_strings (iter env FONT len rnd k st)) < num_codes \<Longrightarrow>
   \<forall>i<k. card (generated_strings (iter env FONT len rnd i st)) < num_codes \<Longrightarrow>
   gen_loop env FONT num_codes len rnd st = Some (iter env FONT len rnd k st)"
proof (induction k arbitrary: st)
  case 0
  then show ?case by (subst gen_loop_unfold) (simp add: iter_0)
next
  case (Suc k)
  from Suc.prems(2) have c: "card (generated_strings st) < num_codes"
    by (auto dest: spec[of _ 0] simp: iter_0)
  have "\<forall>i<k. card (generated_strings (iter env FONT len rnd i (loop_body env FONT len rnd st))) < num_codes"
  proof (intro allI impI)
    fix i assume "i < k"
    then have "Suc i < Suc k" by simp
    with Suc.prems(2) show "card (generated_strings (iter env FONT len rnd i (loop_body env FONT len rnd st))) < num_codes"
      unfolding iter_Suc_left[symmetric] by blast
  qed
  with Suc.prems(1) have "gen_loop env FONT num_codes len rnd (loop_body env FONT len rnd st)
      = Some (iter env FONT len rnd k (loop_body env FONT len rnd st))"
    by (intro Suc.IH) (simp_all add: iter_Suc_left)
  with c show ?case
    by (subst gen_loop_unfold) (simp add: iter_Suc_left)
qed


lemma loop_body_generated:
  "generated_strings (loop_body env FONT len rnd st)
     = insert (nth_sample len rnd (rng_pos st) 0) (generated_strings st)"
  by (auto simp: loop_body_def nth_sample_def generate_random_string_def)

lemma loop_body_rng_pos: "rng_pos (loop_body env FONT len rnd st) = rng_pos st + len"
  by (simp add: loop_body_def generate_random_string_def)

lemma iter_rng_pos: "rng_pos (iter env FONT len rnd k st) = rng_pos st + k * len"
  by (induction k) (simp_all add: iter_0 iter_Suc loop_body_rng_pos)

lemma iter_generated:
  "generated_strings (iter env FONT len rnd k st)
     = generated_strings st \<union> nth_sample len rnd (rng_pos st) ` {..<k}"
proof (induction k)
  case 0
  show ?case by (simp add: iter_0)
next
  case (Suc k)
  have "nth_sample len rnd (rng_pos st + k * len) 0 = nth_sample len rnd (rng_pos st) k"
    by (simp add: nth_sample_def)
  with Suc show ?case
    by (simp add: iter_Suc loop_body_generated iter_rng_pos lessThan_Suc)
qed

lemma gen_loop_terminates:
  assumes "num_codes \<le> card (generated_strings (iter env FONT len rnd k st))"
  shows "\<exists>j\<le>k. gen_loop env FONT num_codes len rnd st = Some (iter env FONT len rnd j st)"
proof -
  let ?P = "\<lambda>j. \<not> card (generated_strings (iter env FONT len rnd j st)) < num_codes"
  define j where "j = (LEAST j. ?P j)"
  from assms have Pk: "?P k" by simp
  then have Pj: "?P j" unfolding j_def by (rule LeastI)
  have jk: "j \<le> k" unfolding j_def using Pk by (rule Least_le)
  have "\<forall>i<j. card (generated_strings (iter env FONT len rnd i st)) < num_codes"
  proof (intro allI impI)
    fix i assume "i < j"
    then have "\<not> ?P i" unfolding j_def by (rule not_less_Least)
    then show "card (generated_strings (iter env FONT len rnd i st)) < num_codes" by simp
  qed
  with Pj have "gen_loop env FONT num_codes len rnd st = Some (iter env FONT len rnd j st)"
    by (rule gen_loop_iter_Some)
  with jk show ?thesis by blast
qed

lemma gen_loop_invariant:
  assumes run: "gen_loop env FONT num_codes len rnd st = Some st'"
    and init: "I st"
    and step: "\<And>s. I s \<Longrightarrow> card (generated_strings s) < num_codes
                 \<Longrightarrow> I (loop_body env FONT len rnd s)"
  shows "I st' \<and> \<not> card (generated_strings st') < num_codes"
proof -
  from gen_loop_Some_iter[OF run] obtain k where
    k: "st' = iter env FONT len rnd k st"
       "\<not> card (generated_strings st') < num_codes"
       "\<forall>i<k. card (generated_strings (iter env FONT len rnd i st)) < num_codes"
    by blast
  have "i \<le> k \<Longrightarrow> I (iter env FONT len rnd i st)" for i
  proof (induction i)
    case 0
    with init show ?case by (simp add: iter_0)
  next
    case (Suc i)
    then have "I (iter env FONT len rnd i st)" by simp
    moreover from Suc.prems k(3) have "card (generated_strings (iter env FONT len rnd i st)) < num_codes"
      by simp
    ultimately show ?case by (simp add: iter_Suc step)
  qed
  then have "I (iter env FONT len rnd k st)" by simp
  with k(1,2) show ?thesis by simp
qed

lemma choice_characters: "choice characters r \<in> set characters"
  unfolding choice_def by (rule nth_mem) (simp add: characters_def)

lemma nth_sample_length: "length (nth_sample len rnd p i) = len"
  by (simp add: nth_sample_def generate_random_string_def)

lemma nth_sample_alphabet: "set (nth_sample len rnd p i) \<subseteq> set characters"
  by (auto simp: nth_sample_def generate_random_string_def choice_characters)


lemma nth_sample_range_finite: "finite (range (nth_sample len rnd p))"
proof -
  have "range (nth_sample len rnd p) \<subseteq> {xs. set xs \<subseteq> set characters \<and> length xs = len}"
    using nth_sample_alphabet nth_sample_length by blast
  moreover have "finite {xs. set xs \<subseteq> set characters \<and> length xs = len}"
    by (rule finite_lists_length_eq) simp
  ultimately show ?thesis by (rule finite_subset)
qed

lemma gen_loop_None:
  assumes fin: "finite (generated_strings st)"
    and few: "card (generated_strings st \<union> range (nth_sample len rnd (rng_pos st))) < num_codes"
  shows "gen_loop env FONT num_codes len rnd st = None"
proof (rule ccontr)
  assume "gen_loop env FONT num_codes len rnd st \<noteq> None"
  then obtain st' where "gen_loop env FONT num_codes len rnd st = Some st'" by blast
  from gen_loop_Some_iter[OF this] obtain k where
    k: "st' = iter env FONT len rnd k st" "\<not> card (generated_strings st') < num_codes"
    by blast
  have "generated_strings st' \<subseteq> generated_strings st \<union> range (nth_sample len rnd (rng_pos st))"
    unfolding k(1) iter_generated by blast
  moreover have "finite (generated_strings st \<union> range (nth_sample len rnd (rng_pos st)))"
    using fin nth_sample_range_finite by simp
  ultimately have "card (generated_strings st')
      \<le> card (generated_strings st \<union> range (nth_sample len rnd (rng_pos st)))"
    by (rule card_mono[rotated])
  with few k(2) show False by simp
qed

lemma nth_sample_constant: "nth_sample len (\<lambda>i. c) p i = replicate len (choice characters c)"
  by (simp add: nth_sample_def generate_random_string_def map_replicate_const)

lemma gen_loop_constant_source:
  assumes "1 < num_codes"
  shows "gen_loop env FONT num_codes len (\<lambda>i. c)
           \<lparr>generated_strings = {}, rng_pos = p, wld = w\<rparr> = None"
proof (rule gen_loop_None)
  have "range (nth_sample len (\<lambda>i. c) p) = {replicate len (choice characters c)}"
    by (auto simp: nth_sample_constant)
  with assms show "card (generated_strings \<lparr>generated_strings = {}, rng_pos = p, wld = w\<rparr>
      \<union> range (nth_sample len (\<lambda>i. c)
           (rng_pos \<lparr>generated_strings = {}, rng_pos = p, wld = w\<rparr>))) < num_codes"
    by simp
qed simp

lemma loop_result_codes:
  assumes run: "gen_loop env FONT num_codes len rnd st = Some st'"
    and fin: "finite (generated_strings st)"
    and le: "card (generated_strings st) \<le> num_codes"
    and wf: "\<forall>s\<in>generated_strings st. length s = len \<and> set s \<subseteq> set characters"
  shows "finite (generated_strings st') \<and> card (generated_strings st') = num_codes
         \<and> (\<forall>s\<in>generated_strings st'. length s = len \<and> set s \<subseteq> set characters)"
proof -
  let ?I = "\<lambda>s::loop_state. finite (generated_strings s) \<and> card (generated_strings s) \<le> num_codes
            \<and> (\<forall>x\<in>generated_strings s. length x = len \<and> set x \<subseteq> set characters)"
  have "?I st' \<and> \<not> card (generated_strings st') < num_codes"
  proof (rule gen_loop_invariant[OF run, where I = ?I])
    show "?I st" using fin le wf by simp
  next
    fix s assume I: "?I s" and c: "card (generated_strings s) < num_codes"
    have "card (insert (nth_sample len rnd (rng_pos s) 0) (generated_strings s))
            \<le> Suc (card (generated_strings s))"
      by (rule card_insert_le_m1) simp_all
    with I c show "?I (loop_body env FONT len rnd s)"
      by (simp add: loop_body_generated nth_sample_length nth_sample_alphabet)
  qed
  then show ?thesis by auto
qed

lemma rnd_counting_distinct:
  "NUM_CODES \<le> card (nth_sample STRING_LENGTH rnd_counting 0 ` {..<24})"
  by code_simp

lemma characters_card: "card (set characters) = 36"
proof -
  have "distinct characters" by (simp add: characters_def)
  then have "card (set characters) = length characters" by (rule distinct_card)
  then show ?thesis by (simp add: characters_def)
qed

lemma samples_card_le: "card (nth_sample len rnd p ` S) \<le> 36 ^ len"
proof -
  have fin: "finite {xs. set xs \<subseteq> set characters \<and> length xs = len}"
    by (rule finite_lists_length_eq) simp
  have "nth_sample len rnd p ` S \<subseteq> {xs. set xs \<subseteq> set characters \<and> length xs = len}"
    using nth_sample_alphabet nth_sample_length by blast
  then have "card (nth_sample len rnd p ` S)
      \<le> card {xs. set xs \<subseteq> set characters \<and> length xs = len}"
    using fin by (rule card_mono[rotated])
  also have "\<dots> = 36 ^ len"
    by (simp add: card_lists_length_eq characters_card)
  finally show ?thesis .
qed

section \<open>The composer\<close>

lemma measure_text_cases:
  assumes "measure_text env FONT d w = (r, w1)"
  shows "files w1 = files w \<and> (stdout w1 = stdout w \<or> stdout w1 = stdout w @ [Print_older_textsize])"
  using assms
  by (auto simp: measure_text_def print_def split: sum.splits prod.splits if_splits)

lemma measure_text_indep: "fst (measure_text env FONT d w) = fst (measure_text env FONT d w')"
  by (simp add: measure_text_def split: sum.splits prod.splits)

lemma try_body_Inr:
  assumes "try_body env FONT d f w = (Inr u, w')"
  shows "\<exists>qw qh tw th w1.
           qr_make_image env QR_BOX_SIZE QR_BORDER d = Inr (qw, qh)
         \<and> measure_text env FONT d w = (Inr (tw, th), w1)
         \<and> 0 \<le> max qw tw + 2 * PADDING
         \<and> 0 \<le> qh + TEXT_PADDING_TOP + th + 2 * PADDING
         \<and> save_error env f = None
         \<and> w' = print (Print_created f)
                  (w1\<lparr>files := (files w1)(f \<mapsto> File
                     \<lparr>img_width = max qw tw + 2 * PADDING,
                      img_height = qh + TEXT_PADDING_TOP + th + 2 * PADDING,
                      background = BACKGROUND_COLOR,
                      elements = [QR_at ((max qw tw + 2 * PADDING - qw) div 2) PADDING qw qh,
                                  Text_at ((max qw tw + 2 * PADDING - tw) div 2)
                                          (PADDING + qh + TEXT_PADDING_TOP) d]\<rparr>)\<rparr>)"
  using assms
  by (auto simp: try_body_def Image_new_def paste_def draw_text_def save_def Let_def
           split: sum.splits prod.splits option.splits if_splits)

lemma try_body_Inl:
  assumes "try_body env FONT d f w = (Inl e, w')"
  shows "files w' = files w \<and> (stdout w' = stdout w \<or> stdout w' = stdout w @ [Print_older_textsize])"
  using assms
  by (auto simp: try_body_def Image_new_def paste_def draw_text_def save_def Let_def
           dest: measure_text_cases
           split: sum.splits prod.splits option.splits if_splits)


lemma create_success:
  assumes "try_body env FONT d f w = (Inr u, w')"
  shows "create_qr_with_title env FONT d f w = w'"
  using assms by (simp add: create_qr_with_title_def)



lemma try_body_env_ok:
  "try_body env_ok DefaultBitmapFont ''AAAAA'' (output_path ''AAAAA'') world0
     = (Inr (), snd (try_body env_ok DefaultBitmapFont ''AAAAA'' (output_path ''AAAAA'') world0))"
  by (simp add: try_body_def env_ok_def measure_text_def Image_new_def save_def Let_def
        QR_BOX_SIZE_def QR_BORDER_def PADDING_def TEXT_PADDING_TOP_def)

section \<open>File names, items and the loop\<close>

lemma isalnum_characters: "ch \<in> set characters \<Longrightarrow> isalnum ch"
  by (auto simp: characters_def isalnum_def)

lemma safe_filename_alnum: "set c \<subseteq> set characters \<Longrightarrow> safe_filename c = c"
  unfolding safe_filename_def by (rule map_idI) (auto simp: isalnum_characters)

lemma lower_IMAGE_FORMAT: "lower IMAGE_FORMAT = ''png''"
  by code_simp

lemma slash_not_in_characters: "CHR ''/'' \<notin> set characters"
  by (simp add: characters_def)

lemma output_path_alnum:
  assumes "set c \<subseteq> set characters"
  shows "output_path c = OUTPUT_DIR @ ''/'' @ c @ ''.png''"
proof -
  have "hd (c @ ''.png'') \<noteq> CHR ''/''"
  proof (cases c)
    case Nil
    then show ?thesis by simp
  next
    case (Cons x xs)
    with assms have "x \<in> set characters" by simp
    with slash_not_in_characters have "x \<noteq> CHR ''/''" by blast
    with Cons show ?thesis by simp
  qed
  then show ?thesis
    by (simp add: output_path_def os_path_join_def safe_filename_alnum[OF assms]
          lower_IMAGE_FORMAT OUTPUT_DIR_def)
qed

lemma output_path_inj:
  assumes "set c \<subseteq> set characters" "set c' \<subseteq> set characters"
    and "output_path c = output_path c'"
  shows "c = c'"
  using assms by (simp add: output_path_alnum)

lemma output_path_not_dir: "set c \<subseteq> set characters \<Longrightarrow> output_path c \<noteq> OUTPUT_DIR"
  by (simp add: output_path_alnum)


lemma pre_cases:
  assumes "xs = ys \<or> xs = ys @ [e]"
  shows "\<exists>pre. (pre = [] \<or> pre = [e]) \<and> xs = ys @ pre"
  using assms
proof
  assume "xs = ys"
  then show ?thesis by (intro exI[of _ "[]"]) simp
next
  assume "xs = ys @ [e]"
  then show ?thesis by (intro exI[of _ "[e]"]) simp
qed

lemma try_body_written:
  assumes "try_body env FONT d f w = (Inr u, w')"
  shows "\<exists>img r w1. measure_text env FONT d w = (r, w1)
           \<and> w' = print (Print_created f) (w1\<lparr>files := (files w1)(f \<mapsto> File img)\<rparr>)
           \<and> (\<exists>x y. Text_at x y d \<in> set (elements img))"
  using assms
  by (auto simp: try_body_def Image_new_def paste_def draw_text_def save_def Let_def
           split: sum.splits prod.splits option.splits if_splits)

lemma create_cases:
  obtains (written) pre img u where
      "pre = [] \<or> pre = [Print_older_textsize]"
      "stdout (create_qr_with_title env FONT d f w) = stdout w @ pre @ [Print_created f]"
      "files (create_qr_with_title env FONT d f w) = (files w)(f \<mapsto> File img)"
      "\<exists>x y. Text_at x y d \<in> set (elements img)"
      "try_body env FONT d f w = (Inr u, create_qr_with_title env FONT d f w)"
  | (failed) pre e w1 where
      "pre = [] \<or> pre = [Print_older_textsize]"
      "stdout (create_qr_with_title env FONT d f w) = stdout w @ pre @ [Log_failed d e, Print_error d e]"
      "files (create_qr_with_title env FONT d f w) = files w"
      "try_body env FONT d f w = (Inl e, w1)"
proof (cases "try_body env FONT d f w")
  case (Pair r w')
  show ?thesis
  proof (cases r)
    case (Inr u)
    with Pair have tb: "try_body env FONT d f w = (Inr u, w')" by simp
    from try_body_written[OF tb] obtain img r1 w1 where
      h: "measure_text env FONT d w = (r1, w1)"
         "w' = print (Print_created f) (w1\<lparr>files := (files w1)(f \<mapsto> File img)\<rparr>)"
         "\<exists>x y. Text_at x y d \<in> set (elements img)"
      by blast
    from measure_text_cases[OF h(1)] have
      m: "files w1 = files w" "stdout w1 = stdout w \<or> stdout w1 = stdout w @ [Print_older_textsize]"
      by simp_all
    have cr: "create_qr_with_title env FONT d f w = w'"
      by (rule create_success[OF tb])
    from pre_cases[OF m(2)] obtain pre where pre: "pre = [] \<or> pre = [Print_older_textsize]"
      "stdout w1 = stdout w @ pre" by blast
    have 1: "stdout (create_qr_with_title env FONT d f w) = stdout w @ pre @ [Print_created f]"
      unfolding cr h(2) by (simp add: print_def pre(2))
    have 2: "files (create_qr_with_title env FONT d f w) = (files w)(f \<mapsto> File img)"
      unfolding cr h(2) by (simp add: print_def m(1))
    from tb cr have 4: "try_body env FONT d f w = (Inr u, create_qr_with_title env FONT d f w)"
      by simp
    from pre(1) 1 2 h(3) 4 show ?thesis by (rule written)
  next
    case (Inl e)
    with Pair have tb: "try_body env FONT d f w = (Inl e, w')" by simp
    from try_body_Inl[OF tb] have
      m: "files w' = files w" "stdout w' = stdout w \<or> stdout w' = stdout w @ [Print_older_textsize]"
      by simp_all
    from pre_cases[OF m(2)] obtain pre where pre: "pre = [] \<or> pre = [Print_older_textsize]"
      "stdout w' = stdout w @ pre" by blast
    have cr: "create_qr_with_title env FONT d f w
                = print (Print_error d e) (print (Log_failed d e) w')"
      by (simp add: create_qr_with_title_def tb)
    have 1: "stdout (create_qr_with_title env FONT d f w)
               = stdout w @ pre @ [Log_failed d e, Print_error d e]"
      unfolding cr by (simp add: print_def pre(2))
    have 2: "files (create_qr_with_title env FONT d f w) = files w"
      unfolding cr by (simp add: print_def m(1))
    from pre(1) 1 2 tb show ?thesis by (rule failed)
  qed
qed

lemma create_counts:
  "created_count (create_qr_with_title env FONT d f w) + failed_count (create_qr_with_title env FONT d f w)
     = created_count w + failed_count w + 1"
  by (cases rule: create_cases[of env FONT d f w]) (auto simp: created_count_def failed_count_def)

lemma loop_body_cases:
  obtains (old) "nth_sample len rnd (rng_pos s) 0 \<in> generated_strings s"
      "loop_body env FONT len rnd s = s\<lparr>rng_pos := rng_pos s + len\<rparr>"
  | (new) c where "c = nth_sample len rnd (rng_pos s) 0" "c \<notin> generated_strings s"
      "loop_body env FONT len rnd s =
         \<lparr>generated_strings = insert c (generated_strings s), rng_pos = rng_pos s + len,
          wld = create_qr_with_title env FONT c (output_path c) (wld s)\<rparr>"
proof (cases "nth_sample len rnd (rng_pos s) 0 \<in> generated_strings s")
  case True
  then have "loop_body env FONT len rnd s = s\<lparr>rng_pos := rng_pos s + len\<rparr>"
    by (simp add: loop_body_def nth_sample_def generate_random_string_def)
  with True show ?thesis by (rule old)
next
  case False
  then have "loop_body env FONT len rnd s =
         \<lparr>generated_strings = insert (nth_sample len rnd (rng_pos s) 0) (generated_strings s),
          rng_pos = rng_pos s + len,
          wld = create_qr_with_title env FONT (nth_sample len rnd (rng_pos s) 0)
                  (output_path (nth_sample len rnd (rng_pos s) 0)) (wld s)\<rparr>"
    by (simp add: loop_body_def nth_sample_def generate_random_string_def)
  with False show ?thesis by (intro new[of "nth_sample len rnd (rng_pos s) 0"]) simp_all
qed

lemma item_written_mono:
  assumes "item_written c evs w"
    and "files w' (output_path c) = files w (output_path c)"
    and "set evs \<subseteq> set evs'"
  shows "item_written c evs' w'"
  using assms by (auto simp: item_written_def)

lemma item_skipped_mono:
  assumes "item_skipped c evs w0 w"
    and "files w' (output_path c) = files w (output_path c)"
    and "set evs \<subseteq> set evs'"
  shows "item_skipped c evs' w0 w'"
  using assms by (auto simp: item_skipped_def list_ex_iff)

lemma loop_outcomes:
  assumes run: "gen_loop env FONT num_codes len rnd
                  \<lparr>generated_strings = {}, rng_pos = p, wld = w0\<rparr> = Some st'"
  shows "\<forall>c\<in>generated_strings st'. set c \<subseteq> set characters"
    and "\<forall>q. q \<notin> output_path ` generated_strings st' \<longrightarrow> files (wld st') q = files w0 q"
    and "\<exists>evs. stdout (wld st') = stdout w0 @ evs
           \<and> (\<forall>c\<in>generated_strings st'.
                  item_written c evs (wld st') \<or> item_skipped c evs w0 (wld st'))"
proof -
  let ?K = "\<lambda>s::loop_state.
      (\<forall>c\<in>generated_strings s. set c \<subseteq> set characters)
    \<and> (\<forall>q. q \<notin> output_path ` generated_strings s \<longrightarrow> files (wld s) q = files w0 q)
    \<and> (\<exists>evs. stdout (wld s) = stdout w0 @ evs
           \<and> (\<forall>c\<in>generated_strings s.
                  item_written c evs (wld s) \<or> item_skipped c evs w0 (wld s)))"
  have "?K st' \<and> \<not> card (generated_strings st') < num_codes"
  proof (rule gen_loop_invariant[OF run, where I = ?K])
    show "?K \<lparr>generated_strings = {}, rng_pos = p, wld = w0\<rparr>" by simp
  next
    fix s :: loop_state
    assume K: "?K s"
    from K have alnum: "\<forall>c\<in>generated_strings s. set c \<subseteq> set characters"
      by (rule conjunct1)
    from K[THEN conjunct2]
    have frame: "\<forall>q. q \<notin> output_path ` generated_strings s \<longrightarrow> files (wld s) q = files w0 q"
      by (rule conjunct1)
    from K[THEN conjunct2, THEN conjunct2] obtain evs where evs: "stdout (wld s) = stdout w0 @ evs"
      and items: "\<forall>c\<in>generated_strings s.
                  item_written c evs (wld s) \<or> item_skipped c evs w0 (wld s)"
      by blast
    show "?K (loop_body env FONT len rnd s)"
    proof (cases rule: loop_body_cases[of len rnd s env FONT])
      case old
      have g: "generated_strings (loop_body env FONT len rnd s) = generated_strings s"
        and w: "wld (loop_body env FONT len rnd s) = wld s"
        by (simp_all add: old(2))
      show ?thesis unfolding g w by (rule K)
    next
      case (new c)
      let ?w' = "create_qr_with_title env FONT c (output_path c) (wld s)"
      from new(1) have c_alnum: "set c \<subseteq> set characters"
        by (simp add: nth_sample_alphabet)
      have other: "output_path c0 \<noteq> output_path c" if "c0 \<in> generated_strings s" for c0
      proof
        assume eq: "output_path c0 = output_path c"
        from that alnum have "set c0 \<subseteq> set characters" by blast
        then have "c0 = c" using c_alnum eq by (rule output_path_inj)
        with that new(2) show False by simp
      qed
      then have fresh: "output_path c \<notin> output_path ` generated_strings s" by force
      have gen': "generated_strings (loop_body env FONT len rnd s) = insert c (generated_strings s)"
        and wld': "wld (loop_body env FONT len rnd s) = ?w'"
        by (simp_all add: new(3))
      have 1: "\<forall>x\<in>insert c (generated_strings s). set x \<subseteq> set characters"
        using alnum c_alnum by simp
      have "(\<forall>q. q \<notin> output_path ` insert c (generated_strings s) \<longrightarrow> files ?w' q = files w0 q)
          \<and> (\<exists>evs'. stdout ?w' = stdout w0 @ evs'
               \<and> (\<forall>x\<in>insert c (generated_strings s).
                      item_written x evs' ?w' \<or> item_skipped x evs' w0 ?w'))"
      proof (cases rule: create_cases[of env FONT c "output_path c" "wld s"])
        case (written pre img u)
        let ?evs' = "evs @ pre @ [Print_created (output_path c)]"
        have f2: "\<forall>q. q \<notin> output_path ` insert c (generated_strings s) \<longrightarrow> files ?w' q = files w0 q"
          using frame by (simp add: written(3))
        have s2: "stdout ?w' = stdout w0 @ ?evs'"
          by (simp add: written(2) evs)
        from written(4) have "list_ex (shows_text c) (elements img)"
          by (force simp: list_ex_iff)
        then have ic: "item_written c ?evs' ?w'"
          by (simp add: item_written_def written(3))
        have io: "item_written x ?evs' ?w' \<or> item_skipped x ?evs' w0 ?w'"
          if "x \<in> generated_strings s" for x
        proof -
          from other[OF that] have same: "files ?w' (output_path x) = files (wld s) (output_path x)"
            by (simp add: written(3))
          have sub: "set evs \<subseteq> set ?evs'" by auto
          from items that have "item_written x evs (wld s) \<or> item_skipped x evs w0 (wld s)"
            by blast
          then show ?thesis
            using item_written_mono[OF _ same sub] item_skipped_mono[OF _ same sub] by blast
        qed
        from ic io have all: "\<forall>x\<in>insert c (generated_strings s).
                      item_written x ?evs' ?w' \<or> item_skipped x ?evs' w0 ?w'"
          by simp
        show ?thesis
          by (intro conjI exI[of _ ?evs']) (rule f2, rule s2, rule all)
      next
        case (failed pre e w1)
        let ?evs' = "evs @ pre @ [Log_failed c e, Print_error c e]"
        have f2: "\<forall>q. q \<notin> output_path ` insert c (generated_strings s) \<longrightarrow> files ?w' q = files w0 q"
          using frame by (simp add: failed(3))
        have s2: "stdout ?w' = stdout w0 @ ?evs'"
          by (simp add: failed(2) evs)
        from fresh frame have "files (wld s) (output_path c) = files w0 (output_path c)"
          by blast
        then have ic: "item_skipped c ?evs' w0 ?w'"
          by (simp add: item_skipped_def failed(3))
        have io: "item_written x ?evs' ?w' \<or> item_skipped x ?evs' w0 ?w'"
          if "x \<in> generated_strings s" for x
        proof -
          have same: "files ?w' (output_path x) = files (wld s) (output_path x)"
            by (simp add: failed(3))
          have sub: "set evs \<subseteq> set ?evs'" by auto
          from items that have "item_written x evs (wld s) \<or> item_skipped x evs w0 (wld s)"
            by blast
          then show ?thesis
            using item_written_mono[OF _ same sub] item_skipped_mono[OF _ same sub] by blast
        qed
        from ic io have all: "\<forall>x\<in>insert c (generated_strings s).
                      item_written x ?evs' ?w' \<or> item_skipped x ?evs' w0 ?w'"
          by simp
        show ?thesis
          by (intro conjI exI[of _ ?evs']) (rule f2, rule s2, rule all)
      qed
      then have 2: "\<forall>q. q \<notin> output_path ` insert c (generated_strings s) \<longrightarrow> files ?w' q = files w0 q"
        and 3: "\<exists>evs'. stdout ?w' = stdout w0 @ evs'
               \<and> (\<forall>x\<in>insert c (generated_strings s).
                      item_written x evs' ?w' \<or> item_skipped x evs' w0 ?w')"
        by (rule conjunct1, rule conjunct2)
      show ?thesis
        unfolding gen' wld' by (intro conjI) (rule 1, rule 2, rule 3)
    qed
  qed
  then have K: "?K st'" by (rule conjunct1)
  from K show "\<forall>c\<in>generated_strings st'. set c \<subseteq> set characters"
    by (rule conjunct1)
  from K[THEN conjunct2]
  show "\<forall>q. q \<notin> output_path ` generated_strings st' \<longrightarrow> files (wld st') q = files w0 q"
    by (rule conjunct1)
  from K[THEN conjunct2]
  show "\<exists>evs. stdout (wld st') = stdout w0 @ evs
           \<and> (\<forall>c\<in>generated_strings st'.
                  item_written c evs (wld st') \<or> item_skipped c evs w0 (wld st'))"
    by (rule conjunct2)
qed

lemma loop_counts:
  assumes run: "gen_loop env FONT num_codes len rnd
                  \<lparr>generated_strings = {}, rng_pos = p, wld = w0\<rparr> = Some st'"
  shows "created_count (wld st') + failed_count (wld st')
           = created_count w0 + failed_count w0 + card (generated_strings st')"
proof -
  let ?I = "\<lambda>s::loop_state. finite (generated_strings s)
     \<and> created_count (wld s) + failed_count (wld s)
           = created_count w0 + failed_count w0 + card (generated_strings s)"
  have "?I st' \<and> \<not> card (generated_strings st') < num_codes"
  proof (rule gen_loop_invariant[OF run, where I = ?I])
    show "?I \<lparr>generated_strings = {}, rng_pos = p, wld = w0\<rparr>" by simp
  next
    fix s :: loop_state
    assume I: "?I s"
    show "?I (loop_body env FONT len rnd s)"
    proof (cases rule: loop_body_cases[of len rnd s env FONT])
      case old
      with I show ?thesis by simp
    next
      case (new c)
      with I show ?thesis by (simp add: create_counts)
    qed
  qed
  then show ?thesis by blast
qed

section \<open>The whole run\<close>

lemma load_font_cases:
  assumes "load_font env w = (r, w1)"
  shows "files w1 = files w \<and> created_count w1 = created_count w \<and> failed_count w1 = failed_count w"
  using assms
  by (auto simp: load_font_def print_def created_count_def failed_count_def Let_def
           split: sum.splits if_splits)

lemma makedirs_cases:
  assumes "makedirs env OUTPUT_DIR True w1 = Inr w2"
  shows "stdout w2 = stdout w1 \<and> files w2 OUTPUT_DIR = Some Dir
         \<and> (\<forall>q. q \<noteq> OUTPUT_DIR \<longrightarrow> files w2 q = files w1 q)"
  using assms
  by (auto simp: makedirs_def split: option.splits node.splits if_splits)

lemma run_loaded:
  assumes "load_font env w = (Loaded FONT, w1)"
  shows "run env num_codes len rnd w =
          (case makedirs env OUTPUT_DIR True w1 of
             Inl e \<Rightarrow> Some (1, w1)
           | Inr w2 \<Rightarrow>
               (case gen_loop env FONT num_codes len rnd
                       \<lparr>generated_strings = {}, rng_pos = 0,
                        wld = print (Print_generating num_codes OUTPUT_DIR) w2\<rparr> of
                  None \<Rightarrow> None
                | Some st \<Rightarrow>
                    Some (0, print (Print_finished (card (generated_strings st))) (wld st))))"
  using assms by (simp add: run_def)

lemma run_terminates:
  assumes font: "load_font env w = (Loaded FONT, w1)"
    and dir: "makedirs env OUTPUT_DIR True w1 = Inr w2"
    and src: "num_codes \<le> card (nth_sample len rnd 0 ` {..<k})"
  shows "\<exists>st'. gen_loop env FONT num_codes len rnd
                 \<lparr>generated_strings = {}, rng_pos = 0,
                  wld = print (Print_generating num_codes OUTPUT_DIR) w2\<rparr> = Some st'
          \<and> card (generated_strings st') = num_codes
          \<and> run env num_codes len rnd w = Some (0, print (Print_finished num_codes) (wld st'))"
proof -
  let ?st = "\<lparr>generated_strings = {}, rng_pos = 0,
              wld = print (Print_generating num_codes OUTPUT_DIR) w2\<rparr>"
  from src have "num_codes \<le> card (generated_strings (iter env FONT len rnd k ?st))"
    by (simp add: iter_generated)
  from gen_loop_terminates[OF this] obtain st' where
    loop: "gen_loop env FONT num_codes len rnd ?st = Some st'" by blast
  from loop_result_codes[OF loop] have card: "card (generated_strings st') = num_codes"
    by simp
  have "run env num_codes len rnd w = Some (0, print (Print_finished num_codes) (wld st'))"
    by (simp add: run_loaded[OF font] dir loop card)
  with loop card show ?thesis by blast
qed

lemma print_simps:
  "files (print e w) = files w"
  "stdout (print e w) = stdout w @ [e]"
  by (simp_all add: print_def)

lemma load_font_env_ok: "load_font (env_ok\<lparr>save_error := se\<rparr>) world0
   = (Loaded (FreeTypeFont ''arial.ttf'' FONT_SIZE), world0)"
  by (simp add: load_font_def env_ok_def)

lemma makedirs_env_ok: "makedirs (env_ok\<lparr>save_error := se\<rparr>) OUTPUT_DIR True world0
   = Inr (world0\<lparr>files := (files world0)(OUTPUT_DIR \<mapsto> Dir)\<rparr>)"
  by (simp add: makedirs_def env_ok_def world0_def)



lemma try_body_env_off:
  "try_body env_off DefaultBitmapFont ''AAAAA'' (output_path ''AAAAA'') world0
     = (Inr (), snd (try_body env_off DefaultBitmapFont ''AAAAA'' (output_path ''AAAAA'') world0))"
  by (simp add: try_body_def env_off_def env_ok_def measure_text_def Image_new_def save_def Let_def
        QR_BOX_SIZE_def QR_BORDER_def PADDING_def TEXT_PADDING_TOP_def)










lemma load_font_env_ok_any:
  "load_font env_ok w = (Loaded (FreeTypeFont ''arial.ttf'' FONT_SIZE), w)"
  by (simp add: load_font_def env_ok_def)

lemma makedirs_blocked: "makedirs env_ok OUTPUT_DIR True world_blocked = Inl IOError"
  by (simp add: makedirs_def world_blocked_def)

lemma makedirs_dir: "makedirs env_ok OUTPUT_DIR True world_dir = Inr world_dir"
  by (simp add: makedirs_def world_dir_def)





lemma samples_exist:
  assumes "num_codes \<le> 36 ^ len"
  shows "\<exists>rnd k. num_codes \<le> card (nth_sample len rnd 0 ` {..<k})"
proof -
  define S where "S = List.n_lists len characters"
  have dc: "distinct characters" by (simp add: characters_def)
  have lc: "length characters = 36" by (simp add: characters_def)
  have lS: "length S = 36 ^ len" by (simp add: S_def length_n_lists lc)
  have dS: "distinct S" unfolding S_def using dc by (rule distinct_n_lists)
  have sS: "set S = {ys. length ys = len \<and> set ys \<subseteq> set characters}"
    by (simp add: S_def set_n_lists)
  define idx where "idx c = (SOME r. r < 36 \<and> characters ! r = c)" for c
  have idx: "idx c < 36 \<and> characters ! idx c = c" if "c \<in> set characters" for c
  proof -
    from that obtain r where "r < length characters" "characters ! r = c"
      by (auto simp: in_set_conv_nth)
    then have "\<exists>r. r < 36 \<and> characters ! r = c" using lc by auto
    then show ?thesis unfolding idx_def by (rule someI_ex)
  qed
  define rnd where "rnd j = idx ((S ! (j div len)) ! (j mod len))" for j
  have samp: "nth_sample len rnd 0 i = S ! i" if i: "i < length S" for i
  proof (cases "len = 0")
    case True
    from i sS have "length (S ! i) = len" using nth_mem by blast
    with True show ?thesis by (simp add: nth_sample_def generate_random_string_def)
  next
    case False
    from i sS have li: "length (S ! i) = len" and si: "set (S ! i) \<subseteq> set characters"
      using nth_mem by blast+
    have "choice characters (rnd (i * len + k)) = (S ! i) ! k" if k: "k < len" for k
    proof -
      from k False have "(i * len + k) div len = i" "(i * len + k) mod len = k" by simp_all
      then have r: "rnd (i * len + k) = idx ((S ! i) ! k)" by (simp add: rnd_def)
      from k li si have "(S ! i) ! k \<in> set characters" using nth_mem by force
      from idx[OF this] show ?thesis by (simp add: choice_def r lc)
    qed
    then have "map (\<lambda>k. choice characters (rnd (i * len + k))) [0..<len]
                 = map (\<lambda>k. (S ! i) ! k) [0..<len]"
      by simp
    also have "\<dots> = S ! i" using li map_nth[of "S ! i"] by simp
    finally show ?thesis by (simp add: nth_sample_def generate_random_string_def)
  qed
  have "nth_sample len rnd 0 ` {..<length S} = set S"
  proof -
    have "nth_sample len rnd 0 ` {..<length S} = (\<lambda>i. S ! i) ` {..<length S}"
      by (rule image_cong) (simp_all add: samp)
    also have "\<dots> = set S" by (simp add: set_conv_nth image_def) blast
    finally show ?thesis .
  qed
  then have "card (nth_sample len rnd 0 ` {..<length S}) = 36 ^ len"
    using dS lS by (simp add: distinct_card)
  with assms have "num_codes \<le> card (nth_sample len rnd 0 ` {..<length S})" by simp
  then show ?thesis by blast
qed

section \<open>Claims\<close>

text \<open>
  C1. The stream of draws stands for what \<^verbatim>\<open>random.choice\<close> returns. Whenever the first
  \<open>k\<close> strings sampled from it hold at least \<open>num_codes\<close> different ones (the loop ends
  exactly then, and such streams exist exactly for \<open>num_codes \<le> 36 ^ len\<close>), the loop
  started with no strings ends with exactly \<open>num_codes\<close> strings in the set: they are
  distinct because they are the members of a set of that cardinality, each has the
  configured length, and each consists of characters of A to Z and 0 to 9 only.
\<close>

theorem unique_codes_generated:
  assumes "num_codes \<le> card (nth_sample len rnd 0 ` {..<k})"
  shows "\<exists>st'. gen_loop env FONT num_codes len rnd
                  \<lparr>generated_strings = {}, rng_pos = 0, wld = w\<rparr> = Some st'
           \<and> finite (generated_strings st')
           \<and> card (generated_strings st') = num_codes
           \<and> (\<forall>s\<in>generated_strings st'. length s = len \<and> set s \<subseteq> set characters)
           \<and> num_codes \<le> 36 ^ len"
proof -
  let ?st = "\<lparr>generated_strings = {}, rng_pos = 0, wld = w\<rparr>"
  from assms have "num_codes \<le> card (generated_strings (iter env FONT len rnd k ?st))"
    by (simp add: iter_generated)
  from gen_loop_terminates[OF this] obtain st' where
    run: "gen_loop env FONT num_codes len rnd ?st = Some st'" by blast
  from assms samples_card_le[of len rnd 0 "{..<k}"] have "num_codes \<le> 36 ^ len"
    by (rule order_trans)
  with loop_result_codes[OF run] show ?thesis using run by simp
qed

theorem unique_codes_generated_witness:
  "NUM_CODES \<le> card (nth_sample STRING_LENGTH rnd_counting 0 ` {..<24}) \<and>
   (\<exists>st'. gen_loop env_ok DefaultBitmapFont NUM_CODES STRING_LENGTH rnd_counting
                  \<lparr>generated_strings = {}, rng_pos = 0, wld = world0\<rparr> = Some st'
           \<and> finite (generated_strings st')
           \<and> card (generated_strings st') = NUM_CODES
           \<and> (\<forall>s\<in>generated_strings st'.
                  length s = STRING_LENGTH \<and> set s \<subseteq> set characters)
           \<and> NUM_CODES \<le> 36 ^ STRING_LENGTH)"
  using unique_codes_generated[OF rnd_counting_distinct] rnd_counting_distinct by blast

text \<open>
  C2. The condition of the safety break asks for more than twice the requested count
  and less than the requested count at once, so it never holds; and on a stream of
  draws that always chooses the same character the loop for the 24 codes never ends:
  it neither reaches the count nor leaves through the break.
\<close>

theorem safety_break_dead_loop_diverges:
  "\<not> safety_break n num_codes \<and>
   gen_loop env FONT NUM_CODES len (\<lambda>i. c)
     \<lparr>generated_strings = {}, rng_pos = p, wld = w\<rparr> = None"
proof -
  have "1 < NUM_CODES" by (simp add: NUM_CODES_def)
  then show ?thesis
    by (simp add: safety_break_never gen_loop_constant_source)
qed

text \<open>
  C5. Whenever the body of the composer runs to its end, the image it has written to the
  file has the width \<open>max(QR width, text width) + 2 * PADDING\<close>, hence at least the QR
  width and at least the text width plus the padding on both sides, and the height
  \<open>QR height + TEXT_PADDING_TOP + text height + 2 * PADDING\<close>, where the QR size is what
  the encoder rendered and the text size is what the font measured for this string.
\<close>

theorem canvas_dimensions:
  assumes "try_body env FONT d f w = (Inr u, w')"
  shows "\<exists>qw qh tw th img.
           qr_make_image env QR_BOX_SIZE QR_BORDER d = Inr (qw, qh)
         \<and> fst (measure_text env FONT d w) = Inr (tw, th)
         \<and> create_qr_with_title env FONT d f w = w'
         \<and> files w' f = Some (File img)
         \<and> img_width img = max qw tw + 2 * PADDING
         \<and> img_height img = qh + TEXT_PADDING_TOP + th + 2 * PADDING
         \<and> qw + 2 * PADDING \<le> img_width img
         \<and> tw + 2 * PADDING \<le> img_width img"
proof -
  from try_body_Inr[OF assms] obtain qw qh tw th w1 where
    h: "qr_make_image env QR_BOX_SIZE QR_BORDER d = Inr (qw, qh)"
       "measure_text env FONT d w = (Inr (tw, th), w1)"
       "w' = print (Print_created f)
                  (w1\<lparr>files := (files w1)(f \<mapsto> File
                     \<lparr>img_width = max qw tw + 2 * PADDING,
                      img_height = qh + TEXT_PADDING_TOP + th + 2 * PADDING,
                      background = BACKGROUND_COLOR,
                      elements = [QR_at ((max qw tw + 2 * PADDING - qw) div 2) PADDING qw qh,
                                  Text_at ((max qw tw + 2 * PADDING - tw) div 2)
                                          (PADDING + qh + TEXT_PADDING_TOP) d]\<rparr>)\<rparr>)"
    by blast
  from h(3) have "files w' f = Some (File
                     \<lparr>img_width = max qw tw + 2 * PADDING,
                      img_height = qh + TEXT_PADDING_TOP + th + 2 * PADDING,
                      background = BACKGROUND_COLOR,
                      elements = [QR_at ((max qw tw + 2 * PADDING - qw) div 2) PADDING qw qh,
                                  Text_at ((max qw tw + 2 * PADDING - tw) div 2)
                                          (PADDING + qh + TEXT_PADDING_TOP) d]\<rparr>)"
    by (simp add: print_def)
  with h(1,2) create_success[OF assms] show ?thesis
    by (intro exI[of _ qw] exI[of _ qh] exI[of _ tw] exI[of _ th]) simp
qed

theorem canvas_dimensions_witness:
  "\<exists>img. files (snd (try_body env_ok DefaultBitmapFont ''AAAAA'' (output_path ''AAAAA'') world0))
             (output_path ''AAAAA'') = Some (File img)
         \<and> img_width img = 330 \<and> img_height img = 358"
  using canvas_dimensions[OF try_body_env_ok]
  by (auto simp: env_ok_def measure_text_def QR_BOX_SIZE_def QR_BORDER_def PADDING_def
        TEXT_PADDING_TOP_def)

text \<open>
  C8. Two runs of the composer on the same string with the same collaborators, from any
  two worlds and to any two file names (in particular a second run on the world the first
  one left), write the same image, so the same width and the same height.
\<close>

theorem composer_dimensions_deterministic:
  assumes "try_body env FONT d f1 w1 = (Inr u1, w1')"
    and "try_body env FONT d f2 w2 = (Inr u2, w2')"
  shows "\<exists>img1 img2.
           files w1' f1 = Some (File img1) \<and> files w2' f2 = Some (File img2)
         \<and> img_width img1 = img_width img2 \<and> img_height img1 = img_height img2
         \<and> img1 = img2"
proof -
  from try_body_Inr[OF assms(1)] obtain qw qh tw th v1 where
    a: "qr_make_image env QR_BOX_SIZE QR_BORDER d = Inr (qw, qh)"
       "measure_text env FONT d w1 = (Inr (tw, th), v1)"
       "w1' = print (Print_created f1)
                  (v1\<lparr>files := (files v1)(f1 \<mapsto> File
                     \<lparr>img_width = max qw tw + 2 * PADDING,
                      img_height = qh + TEXT_PADDING_TOP + th + 2 * PADDING,
                      background = BACKGROUND_COLOR,
                      elements = [QR_at ((max qw tw + 2 * PADDING - qw) div 2) PADDING qw qh,
                                  Text_at ((max qw tw + 2 * PADDING - tw) div 2)
                                          (PADDING + qh + TEXT_PADDING_TOP) d]\<rparr>)\<rparr>)"
    by blast
  from try_body_Inr[OF assms(2)] obtain qw' qh' tw' th' v2 where
    b: "qr_make_image env QR_BOX_SIZE QR_BORDER d = Inr (qw', qh')"
       "measure_text env FONT d w2 = (Inr (tw', th'), v2)"
       "w2' = print (Print_created f2)
                  (v2\<lparr>files := (files v2)(f2 \<mapsto> File
                     \<lparr>img_width = max qw' tw' + 2 * PADDING,
                      img_height = qh' + TEXT_PADDING_TOP + th' + 2 * PADDING,
                      background = BACKGROUND_COLOR,
                      elements = [QR_at ((max qw' tw' + 2 * PADDING - qw') div 2) PADDING qw' qh',
                                  Text_at ((max qw' tw' + 2 * PADDING - tw') div 2)
                                          (PADDING + qh' + TEXT_PADDING_TOP) d]\<rparr>)\<rparr>)"
    by blast
  from a(1) b(1) have q: "qw' = qw" "qh' = qh" by simp_all
  from a(2) b(2) measure_text_indep[of env FONT d w1 w2] have t: "tw' = tw" "th' = th"
    by simp_all
  from a(3) b(3) q t show ?thesis
    by (simp add: print_def)
qed

theorem composer_dimensions_deterministic_witness:
  "\<exists>img. files (snd (try_body env_ok DefaultBitmapFont ''AAAAA'' (output_path ''AAAAA'') world0))
             (output_path ''AAAAA'') = Some (File img)
        \<and> files (snd (try_body env_ok DefaultBitmapFont ''AAAAA'' (output_path ''AAAAA'')
                (snd (try_body env_ok DefaultBitmapFont ''AAAAA'' (output_path ''AAAAA'') world0))))
             (output_path ''AAAAA'') = Some (File img)"
proof -
  have second: "try_body env_ok DefaultBitmapFont ''AAAAA'' (output_path ''AAAAA'')
       (snd (try_body env_ok DefaultBitmapFont ''AAAAA'' (output_path ''AAAAA'') world0))
     = (Inr (), snd (try_body env_ok DefaultBitmapFont ''AAAAA'' (output_path ''AAAAA'')
         (snd (try_body env_ok DefaultBitmapFont ''AAAAA'' (output_path ''AAAAA'') world0))))"
    by (simp add: try_body_def env_ok_def measure_text_def Image_new_def save_def Let_def
        QR_BOX_SIZE_def QR_BORDER_def PADDING_def TEXT_PADDING_TOP_def)
  from composer_dimensions_deterministic[OF try_body_env_ok second]
  show ?thesis by auto
qed

text \<open>
  C3 (amended). When a font is loaded, the output directory can be created and the stream
  of draws delivers the requested number of distinct strings, the run completes with
  exit status 0 whatever happens to the single items, and its last line reports the
  number of codes generated, which is the requested count. Every code accounts for one
  success line or one logged failure, so the number of images written is the requested
  count less the number of failures; it is not the number the summary reports.
\<close>

theorem summary_reports_generated_count:
  assumes "load_font env w = (Loaded FONT, w1)"
    and "makedirs env OUTPUT_DIR True w1 = Inr w2"
    and "num_codes \<le> card (nth_sample len rnd 0 ` {..<k})"
  shows "\<exists>w'. run env num_codes len rnd w = Some (0, w')
           \<and> last (stdout w') = Print_finished num_codes
           \<and> created_count w' + failed_count w' = created_count w + failed_count w + num_codes"
proof -
  from run_terminates[OF assms] obtain st' where
    loop: "gen_loop env FONT num_codes len rnd
                 \<lparr>generated_strings = {}, rng_pos = 0,
                  wld = print (Print_generating num_codes OUTPUT_DIR) w2\<rparr> = Some st'"
    and card: "card (generated_strings st') = num_codes"
    and run: "run env num_codes len rnd w = Some (0, print (Print_finished num_codes) (wld st'))"
    by blast
  let ?w' = "print (Print_finished num_codes) (wld st')"
  from makedirs_cases[OF assms(2)] have s2: "stdout w2 = stdout w1" by simp
  from load_font_cases[OF assms(1)] have c1: "created_count w1 = created_count w"
    "failed_count w1 = failed_count w" by simp_all
  have c2: "created_count (print (Print_generating num_codes OUTPUT_DIR) w2) = created_count w"
    "failed_count (print (Print_generating num_codes OUTPUT_DIR) w2) = failed_count w"
    using c1 by (simp_all add: created_count_def failed_count_def print_simps s2)
  from loop_counts[OF loop] have "created_count (wld st') + failed_count (wld st')
      = created_count w + failed_count w + num_codes"
    by (simp add: c2 card)
  then have "created_count ?w' + failed_count ?w' = created_count w + failed_count w + num_codes"
    by (simp add: created_count_def failed_count_def print_simps)
  moreover have "last (stdout ?w') = Print_finished num_codes"
    by (simp add: print_simps)
  ultimately show ?thesis using run by blast
qed

theorem summary_reports_generated_count_witness:
  "\<exists>w'. main env_unwritable rnd_counting world0 = Some (0, w')
           \<and> last (stdout w') = Print_finished NUM_CODES
           \<and> created_count w' + failed_count w'
                = created_count world0 + failed_count world0 + NUM_CODES"
  unfolding main_def env_unwritable_def
  using summary_reports_generated_count[OF load_font_env_ok makedirs_env_ok rnd_counting_distinct]
  by simp

text \<open>
  C3 as stated fails: when every write of an image is refused, the run of the script
  ends with status 0 and reports 24 in its summary, although it has written no image
  and logged 24 failures.
\<close>

theorem summary_overcounts_counterexample:
  "map_option (\<lambda>r. (fst r, last (stdout (snd r)), created_count (snd r), failed_count (snd r)))
     (main env_unwritable rnd_counting world0) = Some (0, Print_finished 24, 0, 24)"
  by code_simp











text \<open>
  C9. After the font is loaded the output directory is created before anything else:
  when it exists already this raises nothing and changes nothing; when it is absent and
  can be created it is added and nothing else changes; when the creation raises, the run
  ends with status 1 and no file has been touched. After a run that ends with status 0
  the directory exists, and every other path whose content differs from the content
  before the run is the path of a code of this run.
\<close>

theorem output_directory_created_up_front:
  assumes font: "load_font env w = (Loaded FONT, w1)"
  shows "(files w OUTPUT_DIR = Some Dir \<longrightarrow> makedirs env OUTPUT_DIR True w1 = Inr w1)
       \<and> (files w OUTPUT_DIR = None \<and> mkdir_error env OUTPUT_DIR = None \<longrightarrow>
            makedirs env OUTPUT_DIR True w1 = Inr (w1\<lparr>files := (files w1)(OUTPUT_DIR \<mapsto> Dir)\<rparr>))
       \<and> (makedirs env OUTPUT_DIR True w1 = Inl e \<longrightarrow>
            run env num_codes len rnd w = Some (1, w1) \<and> files w1 = files w)
       \<and> (run env num_codes len rnd w = Some (0, w') \<longrightarrow>
            files w' OUTPUT_DIR = Some Dir
          \<and> (\<forall>q. q \<noteq> OUTPUT_DIR \<and> files w' q \<noteq> files w q \<longrightarrow>
                (\<exists>c. set c \<subseteq> set characters \<and> q = output_path c)))"
proof -
  from load_font_cases[OF font] have f1: "files w1 = files w" by simp
  have a: "makedirs env OUTPUT_DIR True w1 = Inr w1" if "files w OUTPUT_DIR = Some Dir"
    using that by (simp add: makedirs_def f1)
  have b: "makedirs env OUTPUT_DIR True w1 = Inr (w1\<lparr>files := (files w1)(OUTPUT_DIR \<mapsto> Dir)\<rparr>)"
    if "files w OUTPUT_DIR = None \<and> mkdir_error env OUTPUT_DIR = None"
    using that by (simp add: makedirs_def f1)
  have c: "run env num_codes len rnd w = Some (1, w1) \<and> files w1 = files w"
    if "makedirs env OUTPUT_DIR True w1 = Inl e"
    using that by (simp add: run_loaded[OF font] f1)
  have d: "files w' OUTPUT_DIR = Some Dir
          \<and> (\<forall>q. q \<noteq> OUTPUT_DIR \<and> files w' q \<noteq> files w q \<longrightarrow>
                (\<exists>c. set c \<subseteq> set characters \<and> q = output_path c))"
    if r: "run env num_codes len rnd w = Some (0, w')"
  proof -
    from r obtain w2 where mk: "makedirs env OUTPUT_DIR True w1 = Inr w2"
      by (cases "makedirs env OUTPUT_DIR True w1") (simp_all add: run_loaded[OF font])
    let ?w0 = "print (Print_generating num_codes OUTPUT_DIR) w2"
    from r mk obtain st' where
      loop: "gen_loop env FONT num_codes len rnd
               \<lparr>generated_strings = {}, rng_pos = 0, wld = ?w0\<rparr> = Some st'"
      and w': "w' = print (Print_finished (card (generated_strings st'))) (wld st')"
      by (cases "gen_loop env FONT num_codes len rnd
               \<lparr>generated_strings = {}, rng_pos = 0, wld = ?w0\<rparr>")
         (simp_all add: run_loaded[OF font])
    from makedirs_cases[OF mk] have dir: "files w2 OUTPUT_DIR = Some Dir"
      and rest: "\<forall>q. q \<noteq> OUTPUT_DIR \<longrightarrow> files w2 q = files w1 q" by simp_all
    note al = loop_outcomes(1)[OF loop]
    note fr = loop_outcomes(2)[OF loop]
    have fw: "files w' = files (wld st')" by (simp add: w' print_simps)
    have "OUTPUT_DIR \<notin> output_path ` generated_strings st'"
    proof
      assume "OUTPUT_DIR \<in> output_path ` generated_strings st'"
      then obtain x where x: "x \<in> generated_strings st'" "OUTPUT_DIR = output_path x" by blast
      from al x(1) have "set x \<subseteq> set characters" by blast
      from output_path_not_dir[OF this] x(2) show False by simp
    qed
    with fr have "files (wld st') OUTPUT_DIR = files ?w0 OUTPUT_DIR" by blast
    with dir have 1: "files w' OUTPUT_DIR = Some Dir" by (simp add: fw print_simps)
    have 2: "\<exists>c. set c \<subseteq> set characters \<and> q = output_path c"
      if q: "q \<noteq> OUTPUT_DIR \<and> files w' q \<noteq> files w q" for q
    proof -
      have "q \<in> output_path ` generated_strings st'"
      proof (rule ccontr)
        assume "q \<notin> output_path ` generated_strings st'"
        with fr have "files (wld st') q = files ?w0 q" by blast
        with q rest f1 have "files w' q = files w q" by (simp add: fw print_simps)
        with q show False by simp
      qed
      then obtain x where x: "x \<in> generated_strings st'" "q = output_path x" by blast
      from al x(1) have "set x \<subseteq> set characters" by blast
      with x(2) show ?thesis by blast
    qed
    from 1 2 show ?thesis by blast
  qed
  from a b c d show ?thesis by blast
qed

theorem output_directory_created_up_front_witness:
  "makedirs env_ok OUTPUT_DIR True world_dir = Inr world_dir
   \<and> makedirs env_ok OUTPUT_DIR True world0
       = Inr (world0\<lparr>files := (files world0)(OUTPUT_DIR \<mapsto> Dir)\<rparr>)
   \<and> run env_ok NUM_CODES STRING_LENGTH rnd_counting world_blocked = Some (1, world_blocked)
   \<and> (\<exists>w'. run env_ok NUM_CODES STRING_LENGTH rnd_counting world_dir = Some (0, w')
          \<and> files w' OUTPUT_DIR = Some Dir
          \<and> (\<forall>q. q \<noteq> OUTPUT_DIR \<and> files w' q \<noteq> files world_dir q \<longrightarrow>
                (\<exists>c. set c \<subseteq> set characters \<and> q = output_path c)))"
proof -
  have d: "files world_dir OUTPUT_DIR = Some Dir" by (simp add: world_dir_def)
  have n: "files world0 OUTPUT_DIR = None \<and> mkdir_error env_ok OUTPUT_DIR = None"
    by (simp add: world0_def env_ok_def)
  from output_directory_created_up_front[OF load_font_env_ok_any, of world_dir] d
  have 1: "makedirs env_ok OUTPUT_DIR True world_dir = Inr world_dir" by blast
  from output_directory_created_up_front[OF load_font_env_ok_any, of world0] n
  have 2: "makedirs env_ok OUTPUT_DIR True world0
       = Inr (world0\<lparr>files := (files world0)(OUTPUT_DIR \<mapsto> Dir)\<rparr>)" by blast
  from output_directory_created_up_front[OF load_font_env_ok_any, of world_blocked IOError
      NUM_CODES STRING_LENGTH rnd_counting] makedirs_blocked
  have 3: "run env_ok NUM_CODES STRING_LENGTH rnd_counting world_blocked = Some (1, world_blocked)"
    by blast
  from run_terminates[OF load_font_env_ok_any makedirs_dir rnd_counting_distinct]
  obtain w' where r: "run env_ok NUM_CODES STRING_LENGTH rnd_counting world_dir = Some (0, w')"
    by blast
  from output_directory_created_up_front[OF load_font_env_ok_any, of world_dir _
      NUM_CODES STRING_LENGTH rnd_counting w'] r
  have "files w' OUTPUT_DIR = Some Dir
          \<and> (\<forall>q. q \<noteq> OUTPUT_DIR \<and> files w' q \<noteq> files world_dir q \<longrightarrow>
                (\<exists>c. set c \<subseteq> set characters \<and> q = output_path c))"
    by blast
  with r have 4: "\<exists>w'. run env_ok NUM_CODES STRING_LENGTH rnd_counting world_dir = Some (0, w')
          \<and> files w' OUTPUT_DIR = Some Dir
          \<and> (\<forall>q. q \<noteq> OUTPUT_DIR \<and> files w' q \<noteq> files world_dir q \<longrightarrow>
                (\<exists>c. set c \<subseteq> set characters \<and> q = output_path c))"
    by (intro exI[of _ w'] conjI) simp_all
  from 1 2 3 4 show ?thesis by (intro conjI)
qed

end
